theory Spec2Isabelle
  imports Complex_Main "HOL-Library.Monad_Syntax"
begin

section \<open>Data model of lkh3skeleton.c\<close>

text \<open>
  The program keeps one global array \<open>nodes\<close> of \<open>N\<close> structs. The array is modelled
  as a list of records and \<open>N\<close> as its length. Node indices are C \<open>int\<close>s that are never
  negative where they index an array, except for the sentinel \<open>best_j = -1\<close> of the greedy
  constructor, which is kept as an \<open>int\<close>. Coordinates and lengths are C \<open>double\<close>s. The
  tour and candidate functions take them as real numbers and the distance in exact
  arithmetic (\<open>dist_nodes\<close>); the distance as the doubles compute it is \<open>dist_ieee\<close>,
  and the two agree wherever every step of the computation is exact.
  Field names carry a prefix: \<open>e_to\<close> is \<open>Edge.to\<close>, \<open>n_next\<close> is \<open>Node.next\<close>, and so on.
\<close>

datatype error = OutOfBounds | UninitRead | UseAfterFree

record Edge =
  e_to :: nat
  e_alpha :: int
  e_length :: real

record Node =
  n_id :: int
  n_x :: real
  n_y :: real
  n_cand_count :: nat
  n_cands :: "Edge list"
  n_prev :: nat
  n_next :: nat

text \<open>
  \<open>n_cands\<close> holds the slots of the \<open>malloc\<close>ed candidate buffer that have been written,
  in slot order; a slot at or beyond its length has never been written.
\<close>

section \<open>Rounded Euclidean distance\<close>

text \<open>
  \<open>dist(i, j)\<close> in exact arithmetic. C's \<open>round\<close> rounds halves away from zero; on the
  non-negative argument \<open>sqrt(...)\<close> that is \<open>\<lfloor>x + 1/2\<rfloor>\<close>, which is what \<^const>\<open>round\<close>
  computes.
\<close>

definition dist_nodes :: "Node list \<Rightarrow> nat \<Rightarrow> nat \<Rightarrow> real" where
  "dist_nodes nodes i j =
     (let dx = n_x (nodes ! i) - n_x (nodes ! j);
          dy = n_y (nodes ! i) - n_y (nodes ! j)
      in of_int (round (sqrt (dx * dx + dy * dy))))"

subsection \<open>The distance in double precision\<close>

text \<open>
  IEEE 754 binary64 with rounding to nearest, ties to even: a value is a real number, an
  infinity or a NaN (the two zeros are not told apart). \<open>rne\<close> rounds a real to an
  integer, ties to even; \<open>expo\<close> is the exponent of the binade of \<open>x\<close>, not below that
  of the subnormal numbers; \<open>ulp\<close> is the spacing of the doubles there; \<open>rnd64\<close> rounds
  a real number to a double and overflows to an infinity from \<open>2^1024\<close> on. Every
  operation rounds its exact result once (no fused multiply-add, no wider intermediate
  format). The coordinates are the stored doubles.
\<close>

datatype dbl = Fin real | PInf | NInf | NaN

definition rne :: "real \<Rightarrow> int" where
  "rne y = (let f = \<lfloor>y\<rfloor>; r = y - of_int f in
            if r < 1 / 2 then f else if 1 / 2 < r then f + 1 else if even f then f else f + 1)"

definition expo :: "real \<Rightarrow> int" where
  "expo x = max \<lfloor>log 2 \<bar>x\<bar>\<rfloor> (- 1022)"

definition ulp :: "real \<Rightarrow> real" where
  "ulp x = 2 powr (of_int (expo x) - 52)"

definition overflow_threshold :: real where
  "overflow_threshold = 2 ^ 1024"

definition rnd64 :: "real \<Rightarrow> dbl" where
  "rnd64 x =
     (if x = 0 then Fin 0
      else let v = of_int (rne (x / ulp x)) * ulp x
           in if overflow_threshold \<le> \<bar>v\<bar> then (if 0 < x then PInf else NInf) else Fin v)"

text \<open>Negation, addition, subtraction, multiplication and square root of doubles.\<close>

fun d_neg :: "dbl \<Rightarrow> dbl" where
  "d_neg (Fin v) = Fin (- v)"
| "d_neg PInf = NInf"
| "d_neg NInf = PInf"
| "d_neg NaN = NaN"

fun d_add :: "dbl \<Rightarrow> dbl \<Rightarrow> dbl" where
  "d_add (Fin a) (Fin b) = rnd64 (a + b)"
| "d_add NaN y = NaN"
| "d_add x NaN = NaN"
| "d_add PInf NInf = NaN"
| "d_add NInf PInf = NaN"
| "d_add PInf y = PInf"
| "d_add x PInf = PInf"
| "d_add NInf y = NInf"
| "d_add x NInf = NInf"

definition d_sub :: "dbl \<Rightarrow> dbl \<Rightarrow> dbl" where
  "d_sub x y = d_add x (d_neg y)"








text \<open>A double that is a non-negative number or plus infinity.\<close>

definition nonneg_dbl :: "dbl \<Rightarrow> bool" where
  "nonneg_dbl d = (case d of Fin v \<Rightarrow> 0 \<le> v | PInf \<Rightarrow> True | NInf \<Rightarrow> False | NaN \<Rightarrow> False)"

section \<open>Candidate set\<close>

definition K_CANDIDATES :: nat where
  "K_CANDIDATES = 20"

text \<open>
  \<open>cmp_edges\<close>: the difference of the two lengths, converted to \<open>int\<close> (truncation
  towards zero). The model's \<open>int\<close> is unbounded: it is the C result when the difference
  fits a 32-bit \<open>int\<close>; beyond that range the C conversion is undefined and the model
  does not follow it.
\<close>

definition cmp_edges :: "Edge \<Rightarrow> Edge \<Rightarrow> int" where
  "cmp_edges e1 e2 =
     (let r = e_length e1 - e_length e2 in if 0 \<le> r then \<lfloor>r\<rfloor> else \<lceil>r\<rceil>)"

text \<open>
  \<open>qsort(cands, k, sizeof(Edge), cmp_edges)\<close>. The C library leaves the order of elements
  that compare equal unspecified; the model is an insertion sort that keeps their
  relative order. It is the C result only where the comparator is within its range and
  no two lengths are equal. No statement below depends on a sort: the instances they
  evaluate have fewer than 21 nodes, for which \<open>qsort\<close> is never called.
\<close>

fun insert_edge :: "Edge \<Rightarrow> Edge list \<Rightarrow> Edge list" where
  "insert_edge e [] = [e]"
| "insert_edge e (x # xs) =
     (if cmp_edges e x < 0 then e # x # xs else x # insert_edge e xs)"

definition qsort_edges :: "Edge list \<Rightarrow> Edge list" where
  "qsort_edges es = fold insert_edge es []"

text \<open>
  Modelled from the spec: the declaration of the counter \<open>k\<close> of \<open>build_candidate_set\<close> is
  missing from the source; following the spec it starts at zero for every node. In the
  model \<open>k\<close> is the number of slots written so far, that is \<open>length cands\<close>.

  \<open>cand_step\<close> is the body of the loop over \<open>j\<close>.
\<close>

definition cand_step :: "Node list \<Rightarrow> nat \<Rightarrow> nat \<Rightarrow> Edge list \<Rightarrow> Edge list" where
  "cand_step nodes i j cands =
     (if j \<noteq> i then
        let len = dist_nodes nodes i j in
        if length cands < K_CANDIDATES then
          let cands' = cands @ [\<lparr>e_to = j, e_alpha = 0, e_length = len\<rparr>] in
          if length cands' = K_CANDIDATES then qsort_edges cands' else cands'
        else if len < e_length (cands ! (K_CANDIDATES - 1)) then
          qsort_edges (cands[K_CANDIDATES - 1 := \<lparr>e_to = j, e_alpha = 0, e_length = len\<rparr>])
        else cands
      else cands)"

definition build_candidate_set :: "Node list \<Rightarrow> Node list" where
  "build_candidate_set nodes =
     fold (\<lambda>i ns.
             let cands = fold (cand_step ns i) [0..<length ns] []
             in ns[i := (ns ! i)\<lparr>n_cand_count := K_CANDIDATES, n_cands := cands\<rparr>])
          [0..<length nodes] nodes"

section \<open>Greedy nearest-neighbour tour\<close>

text \<open>\<open>nn_step\<close> is the body of the inner loop over \<open>j\<close> of \<open>build_initial_tour\<close>.\<close>

definition nn_step :: "Node list \<Rightarrow> bool list \<Rightarrow> nat \<Rightarrow> nat \<Rightarrow> real \<times> int \<Rightarrow> real \<times> int" where
  "nn_step nodes visited current j bb =
     (case bb of (best_d, best_j) \<Rightarrow>
        if \<not> visited ! j then
          let d = dist_nodes nodes current j in
          if d < best_d then (d, int j) else (best_d, best_j)
        else (best_d, best_j))"

definition nn_scan :: "Node list \<Rightarrow> bool list \<Rightarrow> nat \<Rightarrow> real \<times> int" where
  "nn_scan nodes visited current =
     fold (nn_step nodes visited current) [0..<length nodes] (10 ^ 100, - 1)"

text \<open>
  The outer loop over \<open>k\<close>. The state is \<open>(visited, order, cost, current)\<close>; \<open>order\<close> is
  the written prefix of the caller's buffer: slot \<open>k\<close> is written in iteration \<open>k\<close>, after
  slots \<open>0 .. k-1\<close>. When no unvisited node has a distance below the sentinel \<open>1e100\<close>,
  \<open>best_j\<close> is still \<open>-1\<close> and \<open>visited[best_j]\<close> is written out of bounds.
\<close>

fun greedy_loop ::
  "Node list \<Rightarrow> nat list \<Rightarrow> bool list \<times> nat list \<times> real \<times> nat
     \<Rightarrow> error + bool list \<times> nat list \<times> real \<times> nat" where
  "greedy_loop nodes [] st = Inr st"
| "greedy_loop nodes (k # ks) (visited, order, cost, current) =
     (case nn_scan nodes visited current of (best_d, best_j) \<Rightarrow>
        if best_j < 0 then Inl OutOfBounds
        else greedy_loop nodes ks
               (visited[nat best_j := True], order @ [nat best_j], cost + best_d, nat best_j))"

text \<open>
  \<open>build_initial_tour\<close>. With \<open>N = 0\<close> the writes \<open>visited[0]\<close> and \<open>order[0]\<close> fall outside
  the zero-length buffers.
\<close>

definition build_initial_tour :: "Node list \<Rightarrow> error + nat list \<times> real" where
  "build_initial_tour nodes =
     (let N = length nodes in
      if N = 0 then Inl OutOfBounds
      else
        case greedy_loop nodes [1..<N] ((replicate N False)[0 := True], [0], 0, 0) of
          Inl e \<Rightarrow> Inl e
        | Inr (visited, order, cost, current) \<Rightarrow>
            Inr (order, cost + dist_nodes nodes (order ! (N - 1)) (order ! 0)))"

section \<open>Tour structure\<close>

definition tour_from_order :: "Node list \<Rightarrow> nat list \<Rightarrow> Node list" where
  "tour_from_order nodes order =
     fold (\<lambda>i ns.
             let j = (i + 1) mod length nodes;
                 ns1 = ns[order ! i := (ns ! (order ! i))\<lparr>n_next := order ! j\<rparr>]
             in ns1[order ! j := (ns1 ! (order ! j))\<lparr>n_prev := order ! i\<rparr>])
          [0..<length nodes] nodes"

text \<open>
  \<open>tour_length\<close>: a do-while loop that stops when the walk along \<open>next\<close> is back at node 0.
  It need not stop, so the loop is a partial function and \<open>None\<close> means that it runs
  forever. With \<open>N = 0\<close> the first read \<open>nodes[0]\<close> is out of bounds.
\<close>

partial_function (option) tour_length_loop :: "Node list \<Rightarrow> nat \<Rightarrow> real \<Rightarrow> real option" where
  "tour_length_loop nodes cur len =
     (let nxt = n_next (nodes ! cur);
          len' = len + dist_nodes nodes cur nxt
      in if nxt \<noteq> 0 then tour_length_loop nodes nxt len' else Some len')"

definition tour_length :: "Node list \<Rightarrow> (error + real) option" where
  "tour_length nodes =
     (if length nodes = 0 then Some (Inl OutOfBounds)
      else map_option Inr (tour_length_loop nodes 0 0))"

section \<open>2-opt\<close>

text \<open>The loop \<open>while (p != c)\<close> that swaps the two links of every node it walks over.\<close>

partial_function (option) reverse_loop :: "Node list \<Rightarrow> nat \<Rightarrow> nat \<Rightarrow> Node list option" where
  "reverse_loop nodes p c =
     (if p \<noteq> c then
        let tmp = n_next (nodes ! p) in
        reverse_loop (nodes[p := (nodes ! p)\<lparr>n_next := n_prev (nodes ! p), n_prev := tmp\<rparr>]) tmp c
      else Some nodes)"

text \<open>The four assignments under the comment \<open>reconnect\<close>, in source order.\<close>

definition reconnect :: "Node list \<Rightarrow> nat \<Rightarrow> nat \<Rightarrow> nat \<Rightarrow> nat \<Rightarrow> Node list" where
  "reconnect nodes a b c d =
     (let n1 = nodes[a := (nodes ! a)\<lparr>n_next := c\<rparr>];
          n2 = n1[b := (n1 ! b)\<lparr>n_prev := d\<rparr>];
          n3 = n2[c := (n2 ! c)\<lparr>n_prev := a\<rparr>]
      in n3[d := (n3 ! d)\<lparr>n_next := b\<rparr>])"

text \<open>The body of the branch \<open>delta > 1e-9\<close>: reverse the segment, then reconnect.\<close>

definition two_opt_move :: "Node list \<Rightarrow> nat \<Rightarrow> nat \<Rightarrow> nat \<Rightarrow> nat \<Rightarrow> Node list option" where
  "two_opt_move nodes a b c d =
     (case reverse_loop nodes b c of
        None \<Rightarrow> None
      | Some nodes' \<Rightarrow> Some (reconnect nodes' a b c d))"

text \<open>
  The body of the loop over the candidate slots \<open>k\<close> of node \<open>a\<close>. Reading a slot of the
  candidate buffer that was never written is the error \<open>UninitRead\<close>.
\<close>

definition two_opt_cand ::
  "nat \<Rightarrow> nat \<Rightarrow> nat \<Rightarrow> bool \<times> Node list \<Rightarrow> (error + bool \<times> Node list) option" where
  "two_opt_cand a b k st =
     (case st of (improved, nodes) \<Rightarrow>
        if k < length (n_cands (nodes ! a)) then
          let c = e_to (n_cands (nodes ! a) ! k);
              d = n_next (nodes ! c)
          in if c = a \<or> c = b \<or> d = a then Some (Inr (improved, nodes))
             else
               let delta = dist_nodes nodes a b + dist_nodes nodes c d
                             - dist_nodes nodes a c - dist_nodes nodes b d
               in if delta > 1 / 10 ^ 9 then
                    (case two_opt_move nodes a b c d of
                       None \<Rightarrow> None
                     | Some nodes' \<Rightarrow> Some (Inr (True, nodes')))
                  else Some (Inr (improved, nodes))
        else Some (Inl UninitRead))"

fun two_opt_inner ::
  "nat \<Rightarrow> nat \<Rightarrow> nat list \<Rightarrow> bool \<times> Node list \<Rightarrow> (error + bool \<times> Node list) option" where
  "two_opt_inner a b [] st = Some (Inr st)"
| "two_opt_inner a b (k # ks) st =
     (case two_opt_cand a b k st of
        None \<Rightarrow> None
      | Some (Inl e) \<Rightarrow> Some (Inl e)
      | Some (Inr st') \<Rightarrow> two_opt_inner a b ks st')"

text \<open>
  The loop over the nodes \<open>i\<close>. \<open>b\<close> is read once, before the candidates of \<open>a\<close> are
  scanned; \<open>cand_count\<close> is never written by the pass, so the bound of the inner loop is
  the value read on entry.
\<close>

fun two_opt_outer ::
  "nat list \<Rightarrow> bool \<times> Node list \<Rightarrow> (error + bool \<times> Node list) option" where
  "two_opt_outer [] st = Some (Inr st)"
| "two_opt_outer (i # is) st =
     (case two_opt_inner i (n_next (snd st ! i)) [0..<n_cand_count (snd st ! i)] st of
        None \<Rightarrow> None
      | Some (Inl e) \<Rightarrow> Some (Inl e)
      | Some (Inr st') \<Rightarrow> two_opt_outer is st')"

definition two_opt_pass :: "Node list \<Rightarrow> (error + bool \<times> Node list) option" where
  "two_opt_pass nodes = two_opt_outer [0..<length nodes] (False, nodes)"

partial_function (option) two_opt_local_search :: "Node list \<Rightarrow> (error + Node list) option" where
  "two_opt_local_search nodes =
     (case two_opt_pass nodes of
        None \<Rightarrow> None
      | Some r \<Rightarrow>
          (case r of
             Inl e \<Rightarrow> Some (Inl e)
           | Inr st \<Rightarrow> if fst st then two_opt_local_search (snd st) else Some (Inr (snd st))))"

section \<open>The program\<close>

text \<open>
  \<open>print_tour\<close> reads \<open>order[0 .. N-1]\<close>. The buffer is \<open>None\<close> once it has been freed.
\<close>

definition print_tour :: "nat list option \<Rightarrow> nat \<Rightarrow> error + nat list" where
  "print_tour order N =
     (if N = 0 then Inr []
      else case order of None \<Rightarrow> Inl UseAfterFree | Some os \<Rightarrow> Inr (take N os))"

text \<open>
  \<open>main\<close> after the instance has been read: the result is the initial length, the
  optimized length and the printed order. \<open>free(order)\<close> comes right after
  \<open>tour_from_order(order)\<close>, before \<open>print_tour(order)\<close>.
\<close>

definition main :: "Node list \<Rightarrow> (error + real \<times> real \<times> nat list) option" where
  "main nodes0 =
     (let nodes1 = build_candidate_set nodes0 in
      (case build_initial_tour nodes1 of
         Inl e \<Rightarrow> Some (Inl e)
       | Inr (order, len) \<Rightarrow>
           (let nodes2 = tour_from_order nodes1 order;
                freed = (None :: nat list option)
            in (case two_opt_local_search nodes2 of
                  None \<Rightarrow> None
                | Some r \<Rightarrow>
                    (case r of
                       Inl e \<Rightarrow> Some (Inl e)
                     | Inr nodes3 \<Rightarrow>
                         (case tour_length nodes3 of
                            None \<Rightarrow> None
                          | Some r' \<Rightarrow>
                              (case r' of
                                 Inl e \<Rightarrow> Some (Inl e)
                               | Inr len' \<Rightarrow>
                                   (case print_tour freed (length nodes3) of
                                      Inl e \<Rightarrow> Some (Inl e)
                                    | Inr printed \<Rightarrow> Some (Inr (len, len', printed))))))))))"

section \<open>Properties of a tour state\<close>

text \<open>
  The two invariants of the tour structure, as executable checks: every node is the
  successor of its predecessor and the predecessor of its successor; and the walk along
  \<open>next\<close> from any node visits \<open>N\<close> distinct nodes and is then back at its start.
\<close>

definition links_ok :: "Node list \<Rightarrow> bool" where
  "links_ok nodes =
     list_all (\<lambda>i. n_next (nodes ! n_prev (nodes ! i)) = i \<and> n_prev (nodes ! n_next (nodes ! i)) = i)
       [0..<length nodes]"

primrec walk :: "Node list \<Rightarrow> nat \<Rightarrow> nat \<Rightarrow> nat list" where
  "walk nodes s 0 = []"
| "walk nodes s (Suc n) = s # walk nodes (n_next (nodes ! s)) n"

definition single_cycle :: "Node list \<Rightarrow> bool" where
  "single_cycle nodes =
     list_all (\<lambda>s. distinct (walk nodes s (length nodes))
                   \<and> last (walk nodes s (Suc (length nodes))) = s)
       [0..<length nodes]"

section \<open>What the greedy constructor is meant to compute\<close>




section \<open>Instances\<close>

text \<open>
  The array as \<open>read_tsplib\<close> leaves it for a list of coordinates. The fields that
  \<open>read_tsplib\<close> does not write hold placeholders; \<open>main\<close> writes each of them before it
  reads it.
\<close>

definition load_nodes :: "(real \<times> real) list \<Rightarrow> Node list" where
  "load_nodes cs =
     map (\<lambda>(i, c). \<lparr>n_id = int i + 1, n_x = fst c, n_y = snd c, n_cand_count = 0,
                     n_cands = [], n_prev = 0, n_next = 0\<rparr>)
       (enumerate 0 cs)"

text \<open>Overwrites the two links of every node.\<close>

definition set_links :: "Node list \<Rightarrow> nat list \<Rightarrow> nat list \<Rightarrow> Node list" where
  "set_links nodes nexts prevs =
     map (\<lambda>(n, l). n\<lparr>n_next := fst l, n_prev := snd l\<rparr>) (zip nodes (zip nexts prevs))"

text \<open>Five nodes on a line, at x = 2, 0, 3, 1, 5.\<close>

definition I5 :: "Node list" where
  "I5 = build_candidate_set (load_nodes [(2, 0), (0, 0), (3, 0), (1, 0), (5, 0)])"

definition I5_tour :: "Node list" where
  "I5_tour = tour_from_order I5 [0, 2, 3, 1, 4]"

definition I5_after :: "Node list" where
  "I5_after = set_links I5_tour [1, 4, 0, 2, 2] [4, 0, 4, 1, 1]"

definition I5_twice :: "Node list" where
  "I5_twice = set_links I5_tour [1, 4, 4, 2, 2] [1, 0, 4, 1, 1]"

definition I5_swapped :: "Node list" where
  "I5_swapped = set_links I5_tour [2, 0, 0, 2, 1] [4, 4, 0, 1, 2]"

text \<open>Four nodes in the plane.\<close>

definition I4 :: "Node list" where
  "I4 = build_candidate_set (load_nodes [(0, 0), (1, 4), (0, 4), (4, 0)])"

definition I4_tour :: "Node list" where
  "I4_tour = tour_from_order I4 [0, 1, 2, 3]"

definition I4_after :: "Node list" where
  "I4_after = set_links I4_tour [2, 0, 3, 1] [3, 3, 0, 2]"

text \<open>Three nodes on a line, at x = 0, 10, 1.\<close>

definition I3 :: "Node list" where
  "I3 = load_nodes [(0, 0), (10, 0), (1, 0)]"





definition I1 :: "Node list" where
  "I1 = load_nodes [(7, 3)]"

definition square :: "Node list" where
  "square = load_nodes [(0, 0), (0, 10), (10, 10), (10, 0)]"

text \<open>
  The state that \<open>main\<close> builds for the square, with \<open>cand_count\<close> set to the number of
  candidate slots that were written (three), so that a pass reads written slots only.
\<close>

definition square_tour3 :: "Node list" where
  "square_tour3 =
     map (\<lambda>n. n\<lparr>n_cand_count := 3\<rparr>) (tour_from_order (build_candidate_set square) [0, 1, 2, 3])"

section \<open>Auxiliary definitions\<close>

text \<open>
  The real square root is not executable. For evaluation the rounded root is computed
  from the integer square root of \<open>\<lfloor>4 q\<rfloor>\<close>.
\<close>

fun isqrt :: "nat \<Rightarrow> nat" where
  "isqrt n = (if n < 2 then n
              else let r = 2 * isqrt (n div 4) in if (r + 1) * (r + 1) \<le> n then r + 1 else r)"

text \<open>
  A state of five nodes in which no link of the nodes 0, 1, 2 and 4 leads to node 3, and
  a position \<open>p\<close> among these four nodes.
\<close>

definition closed4 :: "Node list \<Rightarrow> nat \<Rightarrow> bool" where
  "closed4 nodes p \<longleftrightarrow>
     length nodes = 5 \<and> p \<noteq> 3 \<and> p < 5 \<and>
     list_all (\<lambda>x. n_next (nodes ! x) \<noteq> 3 \<and> n_next (nodes ! x) < 5
                  \<and> n_prev (nodes ! x) \<noteq> 3 \<and> n_prev (nodes ! x) < 5) [0, 1, 2, 4]"



section \<open>Evaluating the distance\<close>

declare isqrt.simps [simp del]

lemma isqrt_bounds: "isqrt n * isqrt n \<le> n \<and> n < (isqrt n + 1) * (isqrt n + 1)"
proof (induction n rule: isqrt.induct)
  case (1 n)
  show ?case
  proof (cases "n < 2")
    case True
    then have "n = 0 \<or> n = 1" by auto
    moreover have "isqrt 0 = 0" by (subst isqrt.simps) simp
    moreover have "isqrt 1 = 1" by (subst isqrt.simps) simp
    ultimately show ?thesis by auto
  next
    case False
    define s where "s = isqrt (n div 4)"
    from 1 False have IH: "s * s \<le> n div 4" "n div 4 < (s + 1) * (s + 1)"
      by (simp_all add: s_def)
    have lo: "(2 * s) * (2 * s) \<le> n"
    proof -
      have "4 * (s * s) \<le> 4 * (n div 4)" using IH(1) by simp
      also have "\<dots> \<le> n" by simp
      finally show ?thesis by (simp add: algebra_simps)
    qed
    have hi: "n < (2 * s + 2) * (2 * s + 2)"
    proof -
      have "n div 4 + 1 \<le> (s + 1) * (s + 1)" using IH(2) by simp
      then have "4 * (n div 4) + 4 \<le> 4 * ((s + 1) * (s + 1))" by simp
      moreover have "n < 4 * (n div 4) + 4" by presburger
      ultimately show ?thesis by (simp add: algebra_simps)
    qed
    have eq: "isqrt n = (if (2 * s + 1) * (2 * s + 1) \<le> n then 2 * s + 1 else 2 * s)"
      using False by (subst isqrt.simps) (simp add: s_def Let_def)
    show ?thesis
    proof (cases "(2 * s + 1) * (2 * s + 1) \<le> n")
      case True
      then show ?thesis using hi eq by (simp add: algebra_simps)
    next
      case F2: False
      then show ?thesis using lo eq by (simp add: algebra_simps)
    qed
  qed
qed

lemma floor_sqrt_isqrt:
  assumes "0 \<le> (r::real)"
  shows "\<lfloor>sqrt r\<rfloor> = int (isqrt (nat \<lfloor>r\<rfloor>))"
proof -
  define n where "n = nat \<lfloor>r\<rfloor>"
  define s where "s = isqrt n"
  have n1: "real n \<le> r" and n2: "r < real n + 1"
    using assms by (simp_all add: n_def)
  from isqrt_bounds[of n] have b1: "s * s \<le> n" and b2: "n < (s + 1) * (s + 1)"
    by (simp_all add: s_def)
  have "real (s * s) \<le> real n" using b1 by (simp only: of_nat_le_iff)
  then have "real (s * s) \<le> r" using n1 by linarith
  then have "(real s)\<^sup>2 \<le> r" by (simp add: power2_eq_square)
  then have lo: "real s \<le> sqrt r" by (simp add: real_le_rsqrt)
  have "n + 1 \<le> (s + 1) * (s + 1)" using b2 by simp
  then have "real (n + 1) \<le> real ((s + 1) * (s + 1))" by (simp only: of_nat_le_iff)
  then have "r < (real s + 1)\<^sup>2" using n2 by (simp add: power2_eq_square algebra_simps)
  then have hi: "sqrt r < real s + 1" by (simp add: real_less_lsqrt)
  have "\<lfloor>sqrt r\<rfloor> = int s" using lo hi by (intro floor_unique) simp_all
  then show ?thesis by (simp add: s_def n_def)
qed

lemma round_sqrt_isqrt:
  assumes "0 \<le> (q::real)"
  shows "round (sqrt q) = (int (isqrt (nat \<lfloor>4 * q\<rfloor>)) + 1) div 2"
proof -
  define s where "s = int (isqrt (nat \<lfloor>4 * q\<rfloor>))"
  define m where "m = (s + 1) div 2"
  have "sqrt (4 * q) = 2 * sqrt q" by (simp add: real_sqrt_mult)
  then have fl: "\<lfloor>2 * sqrt q\<rfloor> = s"
    using floor_sqrt_isqrt[of "4 * q"] assms by (simp add: s_def)
  have s1: "real_of_int s \<le> 2 * sqrt q" and s2: "2 * sqrt q < real_of_int s + 1"
    using fl by linarith+
  have m1: "2 * m - 1 \<le> s" and m2: "s \<le> 2 * m" by (simp_all add: m_def)
  have "real_of_int (2 * m - 1) \<le> real_of_int s" using m1 by (simp only: of_int_le_iff)
  then have a: "real_of_int m \<le> sqrt q + 1 / 2" using s1 by simp
  have "real_of_int s \<le> real_of_int (2 * m)" using m2 by (simp only: of_int_le_iff)
  then have b: "sqrt q + 1 / 2 < real_of_int m + 1" using s2 by simp
  have "\<lfloor>sqrt q + 1 / 2\<rfloor> = m" using a b by (intro floor_unique) simp_all
  then show ?thesis by (simp add: round_def m_def s_def)
qed

lemma dist_nodes_code [code]:
  "dist_nodes nodes i j =
     (let dx = n_x (nodes ! i) - n_x (nodes ! j);
          dy = n_y (nodes ! i) - n_y (nodes ! j)
      in of_int ((int (isqrt (nat \<lfloor>4 * (dx * dx + dy * dy)\<rfloor>)) + 1) div 2))"
  by (simp add: dist_nodes_def Let_def round_sqrt_isqrt)

declare reverse_loop.simps [code]
declare tour_length_loop.simps [code]
declare two_opt_local_search.simps [code]

section \<open>The accepted 2-opt move\<close>

text \<open>
  C1. After the tour is materialised from the greedy order, and after every accepted
  2-opt move, the links are mutually inverse and the walk along \<open>next\<close> is one cycle
  through all nodes. On the five-node line instance the tour built from the greedy
  order has both properties; the first move that the pass accepts (node \<open>a = 0\<close>,
  candidate slot 0, \<open>c = 1\<close>) leaves a state that has neither: \<open>next[2] = 0\<close> but
  \<open>prev[0] = 4\<close>, and the walk from node 0 is \<open>0, 1, 4, 2\<close> and back to 0, without node 3.
\<close>

theorem two_opt_move_breaks_tour:
  "build_initial_tour I5 = Inr ([0, 2, 3, 1, 4], 12)
   \<and> links_ok I5_tour \<and> single_cycle I5_tour
   \<and> two_opt_cand 0 2 0 (False, I5_tour) = Some (Inr (True, I5_after))
   \<and> \<not> links_ok I5_after \<and> \<not> single_cycle I5_after
   \<and> n_next (I5_after ! 2) = 0 \<and> n_prev (I5_after ! 0) = 4
   \<and> walk I5_after 0 5 = [0, 1, 4, 2, 0]"
  by code_simp

text \<open>
  C2. The tour length after an accepted move is smaller than before. On the four-node
  instance the tour built from the greedy order has length 15; slot 0 of node 0 is
  skipped (\<open>c = b\<close>), slot 1 (\<open>c = 2\<close>, \<open>d = 3\<close>) has \<open>delta = 1\<close> and is accepted; the
  tour length after the move is 19.
\<close>

theorem two_opt_move_lengthens_tour:
  "build_initial_tour I4 = Inr ([0, 1, 2, 3], 15)
   \<and> tour_length I4_tour = Some (Inr 15)
   \<and> two_opt_cand 0 1 0 (False, I4_tour) = Some (Inr (False, I4_tour))
   \<and> two_opt_cand 0 1 1 (False, I4_tour) = Some (Inr (True, I4_after))
   \<and> tour_length I4_after = Some (Inr 19)"
  by code_simp

text \<open>
  C9. Reversing the segment twice with the same boundary nodes restores every link.
  On the five-node line instance the segment from \<open>b = 2\<close> to \<open>c = 1\<close> (with \<open>a = 0\<close>,
  \<open>d = 4\<close>) is reversed twice; the result differs from the tour the first call
  started from, for instance in \<open>next[0]\<close>. The second reversal does not restore the
  links either when it is given the two boundary nodes in the order in which a
  reversed segment would lie (\<open>b = 1\<close>, \<open>c = 2\<close>).
\<close>

theorem reverse_twice_not_identity:
  "two_opt_move I5_tour 0 2 1 4 = Some I5_after
   \<and> two_opt_move I5_after 0 2 1 4 = Some I5_twice
   \<and> map n_next I5_tour = [2, 4, 3, 1, 0] \<and> map n_prev I5_tour = [4, 3, 0, 2, 1]
   \<and> map n_next I5_twice = [1, 4, 4, 2, 2] \<and> map n_prev I5_twice = [1, 0, 4, 1, 1]
   \<and> two_opt_move I5_after 0 1 2 4 = Some I5_swapped
   \<and> map n_next I5_swapped = [2, 0, 0, 2, 1] \<and> map n_prev I5_swapped = [4, 4, 0, 1, 2]"
  by code_simp

section \<open>The candidate set\<close>

text \<open>
  C4. The candidate list of node \<open>i\<close> has at most \<open>min(20, N - 1)\<close> entries, sorted
  ascending by distance. On the three-node line instance the list of node 0 has the two
  written slots \<open>1\<close> (distance 10) and \<open>2\<close> (distance 1), in index order, and its
  \<open>cand_count\<close> is 20.
\<close>

theorem cand_count_not_clamped:
  "n_cand_count (build_candidate_set I3 ! 0) = 20
   \<and> map e_to (n_cands (build_candidate_set I3 ! 0)) = [1, 2]
   \<and> map e_length (n_cands (build_candidate_set I3 ! 0)) = [10, 1]
   \<and> min K_CANDIDATES (length I3 - 1) = 2"
  by code_simp

section \<open>Termination of the local search\<close>

text \<open>
  After the first accepted move on the five-node line instance no link of the nodes
  0, 1, 2 and 4 leads to node 3. The reversal loop keeps that property, so a walk that
  starts among these four nodes never arrives at \<open>c = 3\<close>.
\<close>

lemma closed4_step:
  assumes "closed4 nodes p"
  shows "closed4 (nodes[p := (nodes ! p)\<lparr>n_next := n_prev (nodes ! p), n_prev := n_next (nodes ! p)\<rparr>])
           (n_next (nodes ! p))"
proof -
  from assms have "p < 5" "p \<noteq> 3" unfolding closed4_def by auto
  then have "p = 0 \<or> p = 1 \<or> p = 2 \<or> p = 4" by arith
  then show ?thesis using assms unfolding closed4_def
    by (auto simp: nth_list_update)
qed

lemma reverse_loop_never_returns:
  assumes "reverse_loop nodes p c = Some r"
  shows "\<not> (c = 3 \<and> closed4 nodes p)"
proof (rule reverse_loop.raw_induct[where P = "\<lambda>nodes p c r. \<not> (c = 3 \<and> closed4 nodes p)", OF _ assms])
  fix rl :: "Node list \<Rightarrow> nat \<Rightarrow> nat \<Rightarrow> Node list option" and nodes p c r
  assume IH: "\<And>nodes p c r. rl nodes p c = Some r \<Longrightarrow> \<not> (c = 3 \<and> closed4 nodes p)"
    and eq: "(if p \<noteq> c
              then let tmp = n_next (nodes ! p)
                   in rl (nodes[p := (nodes ! p)\<lparr>n_next := n_prev (nodes ! p), n_prev := tmp\<rparr>]) tmp c
              else Some nodes) = Some r"
  show "\<not> (c = 3 \<and> closed4 nodes p)"
  proof
    assume h: "c = 3 \<and> closed4 nodes p"
    then have "p \<noteq> c" by (simp add: closed4_def)
    with eq have "rl (nodes[p := (nodes ! p)\<lparr>n_next := n_prev (nodes ! p), n_prev := n_next (nodes ! p)\<rparr>])
           (n_next (nodes ! p)) c = Some r" by (simp add: Let_def)
    from IH[OF this] closed4_step[of nodes p] h show False by simp
  qed
qed

lemma I5_after_closed: "closed4 I5_after 2" by code_simp

lemma reverse_loop_I5: "reverse_loop I5_after 2 3 = None"
  using reverse_loop_never_returns[of I5_after 2 3] I5_after_closed by (cases "reverse_loop I5_after 2 3") auto

lemma I5_facts:
  "length I5_tour = 5"
  "n_next (I5_tour ! 0) = 2"
  "n_cand_count (I5_tour ! 0) = 20"
  "two_opt_cand 0 2 0 (False, I5_tour) = Some (Inr (True, I5_after))"
  "two_opt_cand 0 2 (Suc 0) (True, I5_after) = Some (Inr (True, I5_after))"
  "2 < length (n_cands (I5_after ! 0))"
  "e_to (n_cands (I5_after ! 0) ! 2) = 3"
  "n_next (I5_after ! 3) = 2"
  "dist_nodes I5_after 0 2 + dist_nodes I5_after 3 2 - dist_nodes I5_after 0 3 - dist_nodes I5_after 2 2 = 2"
  by code_simp+

lemma I5_third_cand: "two_opt_cand 0 2 2 (True, I5_after) = None"
  by (simp add: two_opt_cand_def I5_facts two_opt_move_def reverse_loop_I5)

lemma upt_20: "[0..<20] = 0 # 1 # 2 # [3..<20]"
  by (simp add: upt_rec)

lemma upt_5: "[0..<5] = 0 # [1..<5]"
  by (simp add: upt_rec)

lemma I5_pass: "two_opt_pass I5_tour = None"
  unfolding two_opt_pass_def I5_facts upt_5
  by (simp add: I5_facts upt_20 I5_third_cand)

lemma I5_greedy: "build_initial_tour I5 = Inr ([0, 2, 3, 1, 4], 12)"
  by code_simp

text \<open>
  C3. For every finite instance the local-search loop reaches a pass without an accepted
  move and returns. On the five-node line instance the first pass accepts slot 0 of
  node 0, skips slot 1 and accepts slot 2 (\<open>c = 3\<close>, \<open>delta = 2\<close>, with the value of \<open>b\<close>
  read before the first move); the reversal loop of that second move runs forever, and
  so do the pass, the local search and the program.
\<close>

theorem local_search_diverges:
  "two_opt_local_search I5_tour = None
   \<and> main (load_nodes [(2, 0), (0, 0), (3, 0), (1, 0), (5, 0)]) = None"
proof -
  have ls: "two_opt_local_search I5_tour = None"
    by (subst two_opt_local_search.simps) (simp add: I5_pass)
  have "main (load_nodes [(2, 0), (0, 0), (3, 0), (1, 0), (5, 0)]) = None"
  proof -
    have t: "tour_from_order I5 [0, 2, 3, Suc 0, 4] = I5_tour" by (simp add: I5_tour_def)
    show ?thesis unfolding main_def I5_def[symmetric]
      by (simp add: I5_greedy t ls)
  qed
  with ls show ?thesis by simp
qed

section \<open>The distance\<close>

subsection \<open>Rounding to a double\<close>





lemma ulp_neg [simp]: "ulp (- x) = ulp x" by (simp add: ulp_def expo_def)

lemma rnd64_zero [simp]: "rnd64 0 = Fin 0" by (simp add: rnd64_def)


lemma nonneg_dbl_simps [simp]:
  "nonneg_dbl (Fin v) = (0 \<le> v)" "nonneg_dbl PInf" "\<not> nonneg_dbl NInf" "\<not> nonneg_dbl NaN"
  by (simp_all add: nonneg_dbl_def)






lemma rnd64_not_NaN [simp]: "rnd64 x \<noteq> NaN"
  by (simp add: rnd64_def Let_def)

lemma d_sub_Fin_not_NaN [simp]: "d_sub (Fin a) (Fin b) \<noteq> NaN"
  by (simp add: d_sub_def)







subsection \<open>The distance of two nodes\<close>







subsection \<open>Where the distance is not what the claim says\<close>

















section \<open>Degenerate instances\<close>

text \<open>
  C7 as stated fails: with no node the greedy constructor writes \<open>order[0]\<close> and
  \<open>visited[0]\<close> outside their buffers instead of returning an empty order; with one node
  the 2-opt pass reads a candidate slot that was never written.
\<close>

theorem build_initial_tour_empty:
  "build_initial_tour [] = Inl OutOfBounds
   \<and> two_opt_local_search (tour_from_order (build_candidate_set I1) [0]) = Some (Inl UninitRead)"
  by code_simp

text \<open>
  C7, as amended. For an instance of one node the greedy constructor returns the order
  \<open>[0]\<close> and the length 0, the tour built from that order links node 0 to itself, and
  its length is 0.
\<close>

theorem single_node_tour:
  "build_initial_tour [n] = Inr ([0], 0)
   \<and> map n_next (tour_from_order [n] [0]) = [0]
   \<and> map n_prev (tour_from_order [n] [0]) = [0]
   \<and> tour_length (tour_from_order [n] [0]) = Some (Inr 0)"
proof -
  have d0: "\<And>ns. dist_nodes ns 0 0 = 0" by (simp add: dist_nodes_def Let_def)
  have a: "build_initial_tour [n] = Inr ([0], 0)"
    by (simp add: build_initial_tour_def d0)
  have t: "tour_from_order [n] [0] = [n\<lparr>n_next := 0, n_prev := 0\<rparr>]"
    by (simp add: tour_from_order_def)
  have l: "tour_length_loop [n\<lparr>n_next := 0, n_prev := 0\<rparr>] 0 0 = Some 0"
    by (subst tour_length_loop.simps) (simp add: d0)
  show ?thesis using a by (simp add: t tour_length_def l)
qed

section \<open>A pass without an accepted move\<close>

lemma two_opt_cand_unimproved:
  assumes "two_opt_cand a b k st = Some (Inr (False, nodes'))"
  shows "st = (False, nodes')"
  using assms unfolding two_opt_cand_def
  by (cases st) (auto simp: Let_def split: if_splits option.splits)

lemma two_opt_inner_unimproved:
  "two_opt_inner a b ks st = Some (Inr (False, nodes')) \<Longrightarrow> st = (False, nodes')"
proof (induction ks arbitrary: st)
  case Nil
  then show ?case by simp
next
  case (Cons k ks)
  from Cons.prems obtain st' where
    c: "two_opt_cand a b k st = Some (Inr st')" and
    r: "two_opt_inner a b ks st' = Some (Inr (False, nodes'))"
    by (auto split: option.splits sum.splits)
  from Cons.IH[OF r] have "st' = (False, nodes')" .
  with c show ?case by (simp add: two_opt_cand_unimproved)
qed

lemma two_opt_outer_unimproved:
  "two_opt_outer is st = Some (Inr (False, nodes')) \<Longrightarrow> st = (False, nodes')"
proof (induction "is" arbitrary: st)
  case Nil
  then show ?case by simp
next
  case (Cons i "is")
  from Cons.prems obtain st' where
    c: "two_opt_inner i (n_next (snd st ! i)) [0..<n_cand_count (snd st ! i)] st = Some (Inr st')" and
    r: "two_opt_outer is st' = Some (Inr (False, nodes'))"
    by (auto split: option.splits sum.splits)
  from Cons.IH[OF r] have "st' = (False, nodes')" .
  with c show ?case by (simp add: two_opt_inner_unimproved)
qed

lemma local_search_stops_at_unimproved:
  assumes "two_opt_local_search nodes = Some (Inr fin)"
  shows "two_opt_pass fin = Some (Inr (False, fin))"
proof -
  have "\<forall>fin. Some (Inr fin) = Some r \<longrightarrow> two_opt_pass fin = Some (Inr (False, fin))"
    if "two_opt_local_search nodes = Some r" for r
    using that
  proof (rule two_opt_local_search.raw_induct[where
        P = "\<lambda>nodes r. \<forall>fin. Some (Inr fin) = Some r \<longrightarrow> two_opt_pass fin = Some (Inr (False, fin))", rotated])
    fix ls :: "Node list \<Rightarrow> (error + Node list) option" and nodes r
    assume IH: "\<And>x y. ls x = Some y \<Longrightarrow> \<forall>fin. Some (Inr fin) = Some y \<longrightarrow> two_opt_pass fin = Some (Inr (False, fin))"
      and eq: "(case two_opt_pass nodes of None \<Rightarrow> None
                | Some r \<Rightarrow> (case r of Inl e \<Rightarrow> Some (Inl e)
                    | Inr st \<Rightarrow> if fst st then ls (snd st) else Some (Inr (snd st)))) = Some r"
    show "\<forall>fin. Some (Inr fin) = Some r \<longrightarrow> two_opt_pass fin = Some (Inr (False, fin))"
    proof (intro allI impI)
      fix fin assume f: "Some (Inr fin) = Some r"
      from eq obtain st where p: "two_opt_pass nodes = Some (Inr st)"
        and rest: "(if fst st then ls (snd st) else Some (Inr (snd st))) = Some r"
        using f by (auto split: option.splits sum.splits)
      show "two_opt_pass fin = Some (Inr (False, fin))"
      proof (cases "fst st")
        case True
        with rest have "ls (snd st) = Some r" by simp
        from IH[OF this] f show ?thesis by blast
      next
        case False
        with rest f have fin: "snd st = fin" by auto
        with False have st: "st = (False, fin)" by (cases st) simp
        from p[unfolded st two_opt_pass_def] have "(False, nodes) = (False, fin)"
          by (rule two_opt_outer_unimproved)
        with p st show ?thesis by simp
      qed
    qed
  qed
  from this[OF assms] show ?thesis by simp
qed

text \<open>
  C10. A pass that returns false has written no link: the state after it is the state
  before it. The state at which the local search stops is such a state, so one more
  pass returns false again and leaves the tour and its length as they are.
\<close>

theorem unimproved_pass_is_identity:
  "(two_opt_pass nodes = Some (Inr (False, nodes')) \<longrightarrow> nodes' = nodes)
   \<and> (two_opt_local_search nodes = Some (Inr fin) \<longrightarrow>
        two_opt_pass fin = Some (Inr (False, fin))
        \<and> (\<forall>r. two_opt_pass fin = Some (Inr r) \<longrightarrow> snd r = fin \<and> tour_length (snd r) = tour_length fin))"
proof (intro conjI impI)
  assume "two_opt_pass nodes = Some (Inr (False, nodes'))"
  then have "(False, nodes) = (False, nodes')"
    unfolding two_opt_pass_def by (rule two_opt_outer_unimproved)
  then show "nodes' = nodes" by simp
next
  assume a: "two_opt_local_search nodes = Some (Inr fin)"
  then show p: "two_opt_pass fin = Some (Inr (False, fin))"
    by (rule local_search_stops_at_unimproved)
  then show "\<forall>r. two_opt_pass fin = Some (Inr r) \<longrightarrow> snd r = fin \<and> tour_length (snd r) = tour_length fin"
    by simp
qed

text \<open>The theorem at the tour of the square, where no move is accepted.\<close>

theorem unimproved_pass_is_identity_witness:
  "two_opt_pass square_tour3 = Some (Inr (False, square_tour3))
   \<and> two_opt_local_search square_tour3 = Some (Inr square_tour3)
   \<and> tour_length square_tour3 = Some (Inr 40)"
proof -
  have p: "two_opt_pass square_tour3 = Some (Inr (False, square_tour3))" by code_simp
  have s: "two_opt_local_search square_tour3 = Some (Inr square_tour3)" by code_simp
  have l: "tour_length square_tour3 = Some (Inr 40)" by code_simp
  from unimproved_pass_is_identity[of square_tour3 square_tour3 square_tour3] p s l
  show ?thesis by blast
qed

section \<open>The printed order\<close>

lemma length_tour_from_order: "length (tour_from_order nodes order) = length nodes"
proof -
  have "length (fold (\<lambda>i ns.
             let j = (i + 1) mod n;
                 ns1 = ns[order ! i := (ns ! (order ! i))\<lparr>n_next := order ! j\<rparr>]
             in ns1[order ! j := (ns1 ! (order ! j))\<lparr>n_prev := order ! i\<rparr>]) is ns) = length ns"
    for n "is" and ns :: "Node list"
    by (induction "is" arbitrary: ns) (simp_all add: Let_def)
  then show ?thesis by (simp add: tour_from_order_def)
qed

lemma length_reverse_loop:
  assumes "reverse_loop nodes p c = Some nodes'"
  shows "length nodes' = length nodes"
proof (rule reverse_loop.raw_induct[where P = "\<lambda>nodes p c nodes'. length nodes' = length nodes", OF _ assms])
  fix rl :: "Node list \<Rightarrow> nat \<Rightarrow> nat \<Rightarrow> Node list option" and nodes p c nodes'
  assume IH: "\<And>nodes p c nodes'. rl nodes p c = Some nodes' \<Longrightarrow> length nodes' = length nodes"
    and eq: "(if p \<noteq> c
              then let tmp = n_next (nodes ! p)
                   in rl (nodes[p := (nodes ! p)\<lparr>n_next := n_prev (nodes ! p), n_prev := tmp\<rparr>]) tmp c
              else Some nodes) = Some nodes'"
  show "length nodes' = length nodes"
  proof (cases "p = c")
    case True
    with eq show ?thesis by simp
  next
    case False
    with eq have "rl (nodes[p := (nodes ! p)\<lparr>n_next := n_prev (nodes ! p), n_prev := n_next (nodes ! p)\<rparr>])
                    (n_next (nodes ! p)) c = Some nodes'"
      by (simp add: Let_def)
    from IH[OF this] show ?thesis by simp
  qed
qed

lemma length_two_opt_move:
  "two_opt_move nodes a b c d = Some nodes' \<Longrightarrow> length nodes' = length nodes"
  unfolding two_opt_move_def reconnect_def
  by (auto simp: Let_def split: option.splits dest: length_reverse_loop)

lemma length_two_opt_cand:
  "two_opt_cand a b k st = Some (Inr st') \<Longrightarrow> length (snd st') = length (snd st)"
  unfolding two_opt_cand_def
  by (cases st) (auto simp: Let_def split: if_splits option.splits dest: length_two_opt_move)

lemma length_two_opt_inner:
  "two_opt_inner a b ks st = Some (Inr st') \<Longrightarrow> length (snd st') = length (snd st)"
proof (induction ks arbitrary: st)
  case Nil
  then show ?case by simp
next
  case (Cons k ks)
  from Cons.prems obtain st1 where
    c: "two_opt_cand a b k st = Some (Inr st1)" and
    r: "two_opt_inner a b ks st1 = Some (Inr st')"
    by (auto split: option.splits sum.splits)
  from Cons.IH[OF r] length_two_opt_cand[OF c] show ?case by simp
qed

lemma length_two_opt_outer:
  "two_opt_outer is st = Some (Inr st') \<Longrightarrow> length (snd st') = length (snd st)"
proof (induction "is" arbitrary: st)
  case Nil
  then show ?case by simp
next
  case (Cons i "is")
  from Cons.prems obtain st1 where
    c: "two_opt_inner i (n_next (snd st ! i)) [0..<n_cand_count (snd st ! i)] st = Some (Inr st1)" and
    r: "two_opt_outer is st1 = Some (Inr st')"
    by (auto split: option.splits sum.splits)
  from Cons.IH[OF r] length_two_opt_inner[OF c] show ?case by simp
qed

lemma length_two_opt_pass:
  "two_opt_pass nodes = Some (Inr st') \<Longrightarrow> length (snd st') = length nodes"
  unfolding two_opt_pass_def by (drule length_two_opt_outer) simp

lemma length_two_opt_local_search:
  assumes "two_opt_local_search nodes = Some r"
  shows "\<forall>fin. r = Inr fin \<longrightarrow> length fin = length nodes"
proof (rule two_opt_local_search.raw_induct[where
      P = "\<lambda>nodes r. \<forall>fin. r = Inr fin \<longrightarrow> length fin = length nodes", OF _ assms])
  fix ls :: "Node list \<Rightarrow> (error + Node list) option" and nodes r
  assume IH: "\<And>x y. ls x = Some y \<Longrightarrow> \<forall>fin. y = Inr fin \<longrightarrow> length fin = length x"
    and eq: "(case two_opt_pass nodes of None \<Rightarrow> None
              | Some r \<Rightarrow> (case r of Inl e \<Rightarrow> Some (Inl e)
                  | Inr st \<Rightarrow> if fst st then ls (snd st) else Some (Inr (snd st)))) = Some r"
  show "\<forall>fin. r = Inr fin \<longrightarrow> length fin = length nodes"
  proof (intro allI impI)
    fix fin assume f: "r = Inr fin"
    from eq f obtain st where p: "two_opt_pass nodes = Some (Inr st)"
      and rest: "(if fst st then ls (snd st) else Some (Inr (snd st))) = Some r"
      by (auto split: option.splits sum.splits)
    from length_two_opt_pass[OF p] have l: "length (snd st) = length nodes" .
    show "length fin = length nodes"
    proof (cases "fst st")
      case True
      with rest have "ls (snd st) = Some r" by simp
      from IH[OF this] f l show ?thesis by simp
    next
      case False
      with rest f l show ?thesis by auto
    qed
  qed
qed

lemma build_initial_tour_nonempty:
  "build_initial_tour nodes = Inr r \<Longrightarrow> length nodes \<noteq> 0"
  by (auto simp: build_initial_tour_def)

text \<open>
  C5. On successful completion the program prints the two lengths and the order read
  back from the tour after the 2-opt. In the code \<open>print_tour\<close> is given the buffer
  \<open>order\<close> of the greedy constructor, which \<open>main\<close> has already freed: whenever the run
  arrives at \<open>print_tour\<close> there is at least one node and the first read is a read of
  freed memory, so no run ends with a printed order.
\<close>

theorem main_reads_freed_order: "main nodes \<noteq> Some (Inr out)"
proof
  assume m: "main nodes = Some (Inr out)"
  define nodes1 where "nodes1 = build_candidate_set nodes"
  from m obtain order len where b: "build_initial_tour nodes1 = Inr (order, len)"
    unfolding main_def nodes1_def by (auto simp: Let_def split: sum.splits)
  define nodes2 where "nodes2 = tour_from_order nodes1 order"
  from m b obtain nodes3 where s: "two_opt_local_search nodes2 = Some (Inr nodes3)"
    and p: "\<exists>printed. print_tour None (length nodes3) = Inr printed"
    unfolding main_def nodes1_def[symmetric] nodes2_def
    by (auto simp: Let_def split: sum.splits option.splits)
  from length_two_opt_local_search[OF s] have "length nodes3 = length nodes2" by simp
  also have "\<dots> = length nodes1" by (simp add: nodes2_def length_tour_from_order)
  finally have "length nodes3 \<noteq> 0" using build_initial_tour_nonempty[OF b] by simp
  with p show False by (simp add: print_tour_def)
qed

section \<open>The greedy constructor\<close>















end
